theory Spec2Isabelle
  imports Main
begin

section \<open>Python strings as lists of code points\<close>

text \<open>
  A Python \<open>str\<close> is a sequence of Unicode code points: \<open>len\<close>, slicing and the \<open>re\<close>
  module all count code points. A string is therefore a list of natural numbers, one per
  code point. ASCII literals of the source are written with \<open>ascii\<close>; the Vietnamese
  letters of the chapter patterns are given by their code points.
\<close>

type_synonym ustr = "nat list"

definition ascii :: "string \<Rightarrow> ustr" where
  "ascii s = map of_char s"

text \<open>
  \<open>str.isspace\<close>, \<open>str.strip()\<close> and the pattern \<open>\s\<close> of a \<open>str\<close> pattern use the same
  test of the interpreter: tab to carriage return, the four separators U+001C to U+001F,
  space, U+0085, U+00A0, U+1680, U+2000 to U+200A, U+2028, U+2029, U+202F, U+205F, U+3000.
\<close>

definition isspace :: "nat \<Rightarrow> bool" where
  "isspace c \<longleftrightarrow>
     (9 \<le> c \<and> c \<le> 13) \<or> (28 \<le> c \<and> c \<le> 32) \<or> c = 133 \<or> c = 160 \<or> c = 5760 \<or>
     (8192 \<le> c \<and> c \<le> 8202) \<or> c = 8232 \<or> c = 8233 \<or> c = 8239 \<or> c = 8287 \<or> c = 12288"

text \<open>
  \<open>\d\<close> of a \<open>str\<close> pattern is any decimal digit of Unicode (general category Nd): blocks of
  ten consecutive code points, listed by their first one, and the fifty mathematical
  digits U+1D7CE to U+1D7FF (the table of Unicode 14, which CPython 3.11 carries).
\<close>

definition nd_blocks :: "nat list" where
  "nd_blocks = [48, 1632, 1776, 1984, 2406, 2534, 2662, 2790, 2918, 3046, 3174, 3302, 3430,
     3558, 3664, 3792, 3872, 4160, 4240, 6112, 6160, 6470, 6608, 6784, 6800, 6992, 7088, 7232,
     7248, 42528, 43216, 43264, 43472, 43504, 43600, 44016, 65296, 66720, 68912, 69734, 69872,
     69942, 70096, 70384, 70736, 70864, 71248, 71360, 71472, 71904, 72016, 72784, 73040, 73120,
     92768, 92864, 93008, 123200, 123632, 125264, 130032]"

definition isdecimal :: "nat \<Rightarrow> bool" where
  "isdecimal c \<longleftrightarrow> list_ex (\<lambda>lo. lo \<le> c \<and> c < lo + 10) nd_blocks \<or> (120782 \<le> c \<and> c \<le> 120831)"

definition newline :: nat where
  "newline = 10"

text \<open>\<open>s.strip()\<close>: leading and trailing whitespace removed.\<close>

definition lstrip :: "ustr \<Rightarrow> ustr" where
  "lstrip s = dropWhile isspace s"

definition rstrip :: "ustr \<Rightarrow> ustr" where
  "rstrip s = rev (dropWhile isspace (rev s))"

definition strip :: "ustr \<Rightarrow> ustr" where
  "strip s = rstrip (lstrip s)"

definition startswith :: "ustr \<Rightarrow> ustr \<Rightarrow> bool" where
  "startswith s w \<longleftrightarrow> take (length w) s = w"

section \<open>The text normalizer \<open>clean_text\<close>\<close>

text \<open>
  \<open>re.sub(r'\s+', ' ', text)\<close>: every maximal run of whitespace becomes one space.
\<close>

function collapse_ws :: "ustr \<Rightarrow> ustr" where
  "collapse_ws [] = []"
| "collapse_ws (c # cs) =
     (if isspace c then 32 # collapse_ws (dropWhile isspace cs) else c # collapse_ws cs)"
  by pat_completeness auto
termination
  by (relation "measure length") (auto simp: less_Suc_eq_le length_dropWhile_le)

text \<open>
  The three page-number patterns \<open>^\s*\d+\s*$\<close>, \<open>^\s*Page\s+\d+\s*$\<close> and
  \<open>^\s*Trang\s+\d+\s*$\<close> differ in an optional word. Whitespace, digits and the
  letters of the words are disjoint, so every greedy repetition takes its whole run,
  except the last \<open>\s*\<close>, see \<open>match_number_eol\<close>.

  \<open>skip_word\<close> is the part \<open>Page\s+\<close> (nothing for the first pattern): it returns the
  text after it.
\<close>

definition skip_word :: "ustr option \<Rightarrow> ustr \<Rightarrow> ustr option" where
  "skip_word w r0 =
     (case w of
        None \<Rightarrow> Some r0
      | Some word \<Rightarrow>
          if startswith r0 word \<and> takeWhile isspace (drop (length word) r0) \<noteq> []
          then Some (dropWhile isspace (drop (length word) r0))
          else None)"

text \<open>
  \<open>match_number_eol\<close> is the part \<open>\d+\s*$\<close> under \<open>re.MULTILINE\<close>; it returns the
  text after the match. \<open>$\<close> holds at the end of the string and before a newline, so
  when the run of whitespace after the number does not reach the end of the string the
  engine gives characters back until it stands before the last newline of the run, and
  fails when the run has none.
\<close>

definition match_number_eol :: "ustr \<Rightarrow> ustr option" where
  "match_number_eol r =
     (let ds = takeWhile isdecimal r;
          sp = takeWhile isspace (dropWhile isdecimal r);
          r4 = dropWhile isspace (dropWhile isdecimal r)
      in if ds = [] then None
         else if r4 = [] then Some []
         else if newline \<in> set sp
           then Some (newline # rev (takeWhile (\<lambda>c. c \<noteq> newline) (rev sp)) @ r4)
         else None)"

text \<open>
  One attempt of the engine to match a page-number pattern at a position that is the
  start of a line, \<open>text\<close> being the string from that position on. The result is the
  matched text and what follows it.
\<close>

definition match_page_line :: "ustr option \<Rightarrow> ustr \<Rightarrow> (ustr \<times> ustr) option" where
  "match_page_line w text =
     (case skip_word w (dropWhile isspace text) of
        None \<Rightarrow> None
      | Some r \<Rightarrow>
          (case match_number_eol r of
             None \<Rightarrow> None
           | Some rest \<Rightarrow> Some (take (length text - length rest) text, rest)))"

lemma skip_word_length: "skip_word w r0 = Some r \<Longrightarrow> length r \<le> length r0"
proof (cases w)
  case None
  assume "skip_word w r0 = Some r"
  with None show ?thesis by (simp add: skip_word_def)
next
  case (Some word)
  assume "skip_word w r0 = Some r"
  with Some have "r = dropWhile isspace (drop (length word) r0)"
    by (simp add: skip_word_def split: if_splits)
  moreover have "length (dropWhile isspace (drop (length word) r0)) \<le> length (drop (length word) r0)"
    by (rule length_dropWhile_le)
  ultimately show ?thesis by simp
qed

lemma length_after_last_newline:
  "newline \<in> set sp \<Longrightarrow> length (takeWhile (\<lambda>c. c \<noteq> newline) (rev sp)) < length sp"
proof -
  assume "newline \<in> set sp"
  then have "\<not> (\<forall>c\<in>set (rev sp). c \<noteq> newline)" by simp
  then have "takeWhile (\<lambda>c. c \<noteq> newline) (rev sp) \<noteq> rev sp"
    by (simp add: takeWhile_eq_all_conv)
  moreover have "length (takeWhile (\<lambda>c. c \<noteq> newline) (rev sp)) \<le> length (rev sp)"
    by (rule length_takeWhile_le)
  moreover have "length (takeWhile (\<lambda>c. c \<noteq> newline) (rev sp)) = length (rev sp)
      \<Longrightarrow> takeWhile (\<lambda>c. c \<noteq> newline) (rev sp) = rev sp"
    by (metis append_self_conv length_0_conv length_append add_diff_cancel_left' takeWhile_dropWhile_id diff_self_eq_0)
  ultimately show ?thesis by fastforce
qed

lemma length_span: "length (takeWhile P xs) + length (dropWhile P xs) = length xs"
  by (induction xs) auto

lemma match_number_eol_shorter:
  assumes "match_number_eol r = Some rest"
  shows "length rest < length r"
proof -
  define sp where "sp = takeWhile isspace (dropWhile isdecimal r)"
  define r4 where "r4 = dropWhile isspace (dropWhile isdecimal r)"
  have ds: "takeWhile isdecimal r \<noteq> []"
    using assms by (simp add: match_number_eol_def Let_def split: if_splits)
  have tot: "length (takeWhile isdecimal r) + (length sp + length r4) = length r"
    unfolding sp_def r4_def by (simp add: length_span)
  from ds have pos: "1 \<le> length (takeWhile isdecimal r)"
    by (cases "takeWhile isdecimal r") simp_all
  show ?thesis
  proof (cases "r4 = []")
    case True
    with assms have "rest = []"
      by (simp add: match_number_eol_def Let_def r4_def split: if_splits)
    moreover from ds have "r \<noteq> []" by auto
    ultimately show ?thesis by simp
  next
    case False
    with assms have nl: "newline \<in> set sp"
      and rest: "rest = newline # rev (takeWhile (\<lambda>c. c \<noteq> newline) (rev sp)) @ r4"
      by (simp_all add: match_number_eol_def Let_def r4_def sp_def split: if_splits)
    from length_after_last_newline [OF nl]
    have "length rest \<le> length sp + length r4" by (simp add: rest)
    with pos tot show ?thesis by linarith
  qed
qed

lemma match_page_line_shorter:
  assumes "match_page_line w text = Some (consumed, rest)"
  shows "length rest < length text"
proof -
  from assms obtain r where r: "skip_word w (dropWhile isspace text) = Some r"
    and m: "match_number_eol r = Some rest"
    by (auto simp: match_page_line_def split: option.splits)
  have "length rest < length r" by (rule match_number_eol_shorter [OF m])
  also have "\<dots> \<le> length (dropWhile isspace text)" by (rule skip_word_length [OF r])
  also have "\<dots> \<le> length text" by (rule length_dropWhile_le)
  finally show ?thesis .
qed

text \<open>
  \<open>re.sub(pattern, '', text, flags=re.MULTILINE)\<close> for a page-number pattern: the
  scan goes through the text from left to right; \<open>^\<close> holds at the start of the text and
  after a newline (the flag \<open>bol\<close>); a match is removed and the scan goes on behind it; a
  character where no match starts is copied. A match holds at least one digit, so the
  matched text is never empty.
\<close>

function sub_page_line :: "ustr option \<Rightarrow> bool \<Rightarrow> ustr \<Rightarrow> ustr" where
  "sub_page_line w bol [] = []"
| "sub_page_line w bol (c # cs) =
     (case (if bol then match_page_line w (c # cs) else None) of
        Some (consumed, rest) \<Rightarrow> sub_page_line w (last consumed = newline) rest
      | None \<Rightarrow> c # sub_page_line w (c = newline) cs)"
  by pat_completeness auto
termination
  by (relation "measure (\<lambda>(w, bol, text). length text)")
     (auto split: if_splits dest: match_page_line_shorter)

text \<open>
  \<open>re.sub(r'\n\s*\n\s*\n+', '\n\n', text)\<close>: a match starts at a newline and needs two
  more newlines in the run of whitespace behind it; the greedy repetitions make it end
  with the last newline of that run.
\<close>

function squeeze_breaks :: "ustr \<Rightarrow> ustr" where
  "squeeze_breaks [] = []"
| "squeeze_breaks (c # cs) =
     (let sp = takeWhile isspace cs
      in if c = newline \<and> 2 \<le> count_list sp newline
         then newline # newline #
              squeeze_breaks
                (drop (length sp - length (takeWhile (\<lambda>c. c \<noteq> newline) (rev sp))) cs)
         else c # squeeze_breaks cs)"
  by pat_completeness auto
termination
  by (relation "measure length") (auto simp: less_Suc_eq_le)

text \<open>
  \<^verbatim>\<open>
  def clean_text(self, text: str) -> str:
      if not text:
          return ""
      text = re.sub(r'\s+', ' ', text)
      text = re.sub(r'^\s*\d+\s*$', '', text, flags=re.MULTILINE)
      text = re.sub(r'^\s*Page\s+\d+\s*$', '', text, flags=re.MULTILINE)
      text = re.sub(r'^\s*Trang\s+\d+\s*$', '', text, flags=re.MULTILINE)
      text = re.sub(r'\n\s*\n\s*\n+', '\n\n', text)
      return text.strip()
  \<close>
\<close>

definition clean_text :: "ustr \<Rightarrow> ustr" where
  "clean_text text =
     (if text = [] then []
      else
        let text = collapse_ws text;
            text = sub_page_line None True text;
            text = sub_page_line (Some (ascii ''Page'')) True text;
            text = sub_page_line (Some (ascii ''Trang'')) True text;
            text = squeeze_breaks text
        in strip text)"

text \<open>
  A text is a page-number line when one of the three page-number patterns matches it
  from its start.
\<close>

definition page_number_line :: "ustr \<Rightarrow> bool" where
  "page_number_line t \<longleftrightarrow>
     match_page_line None t \<noteq> None \<or>
     match_page_line (Some (ascii ''Page'')) t \<noteq> None \<or>
     match_page_line (Some (ascii ''Trang'')) t \<noteq> None"

text \<open>
  Whitespace is single-spaced when every whitespace character is a space that is
  followed by no other whitespace character.
\<close>

fun single_spaced :: "ustr \<Rightarrow> bool" where
  "single_spaced [] = True"
| "single_spaced (c # cs) =
     ((isspace c \<longrightarrow> c = 32 \<and> (cs = [] \<or> \<not> isspace (hd cs))) \<and> single_spaced cs)"

section \<open>The line classifier\<close>

text \<open>
  Matching with \<open>re.IGNORECASE\<close> compares characters after lower-casing; in addition
  the engine treats \<open>i\<close> and the dotless i (U+0131) as equal. \<open>ic_fold\<close> sends a code
  point to the representative of its class, for the classes of the letters that occur
  in the chapter patterns: the ASCII letters, a with grave (U+00E0), o with horn
  (U+01A1), u with horn (U+01B0), a with circumflex and grave (U+1EA7), and the class
  of \<open>i\<close>, which also holds U+0130 (its lower case is \<open>i\<close>) and U+0131. A literal of a
  pattern matches a character exactly when both have the same representative.
\<close>

definition ic_fold :: "nat \<Rightarrow> nat" where
  "ic_fold c =
     (if 65 \<le> c \<and> c \<le> 90 then c + 32
      else if c = 192 then 224
      else if c = 416 then 417
      else if c = 431 then 432
      else if c = 7846 then 7847
      else if c = 304 \<or> c = 305 then 105
      else c)"

definition ic_startswith :: "ustr \<Rightarrow> ustr \<Rightarrow> bool" where
  "ic_startswith s w \<longleftrightarrow>
     length w \<le> length s \<and> map ic_fold (take (length w) s) = map ic_fold w"

text \<open>\<open>[IVXLCDM]\<close> under \<open>re.IGNORECASE\<close>, \<open>[\s\.:]\<close>, \<open>[\.\s]\<close> and \<open>[A-Z]\<close>.\<close>

definition is_roman :: "nat \<Rightarrow> bool" where
  "is_roman c \<longleftrightarrow> ic_fold c \<in> set (ascii ''ivxlcdm'')"

definition is_sep :: "nat \<Rightarrow> bool" where
  "is_sep c \<longleftrightarrow> isspace c \<or> c = 46 \<or> c = 58"

definition is_dot_space :: "nat \<Rightarrow> bool" where
  "is_dot_space c \<longleftrightarrow> c = 46 \<or> isspace c"

definition is_AZ :: "nat \<Rightarrow> bool" where
  "is_AZ c \<longleftrightarrow> 65 \<le> c \<and> c \<le> 90"

text \<open>
  \<open>$\<close> without \<open>re.MULTILINE\<close> holds at the end of the string and before a newline that
  is its last character. The dot matches every character but the newline.
\<close>

definition at_eol :: "ustr \<Rightarrow> bool" where
  "at_eol r \<longleftrightarrow> r = [] \<or> r = [newline]"

definition not_newline :: "nat \<Rightarrow> bool" where
  "not_newline c \<longleftrightarrow> c \<noteq> newline"

text \<open>
  The tail \<open>[\s\.:]*(.*)$\<close> of the word patterns and of the first section pattern: the
  separators take their whole run, the group takes everything up to the first newline,
  and the match succeeds when \<open>$\<close> holds there. Giving characters back never helps:
  the dot does not pass a newline, so no other split reaches a place where \<open>$\<close> holds.
\<close>

definition title_tail :: "ustr \<Rightarrow> ustr option" where
  "title_tail r =
     (let r4 = dropWhile is_sep r
      in if at_eol (dropWhile not_newline r4) then Some (takeWhile not_newline r4) else None)"

text \<open>
  \<open>(\d+|[IVXLCDM]+)[\s\.:]*(.*)$\<close>: the first alternative is tried first, the second
  when the first one leads to no match. The result is groups 2 and 3.
\<close>

definition number_then_title :: "ustr \<Rightarrow> (ustr \<times> ustr) option" where
  "number_then_title r =
     (case (if takeWhile isdecimal r \<noteq> [] then title_tail (dropWhile isdecimal r) else None) of
        Some t \<Rightarrow> Some (takeWhile isdecimal r, t)
      | None \<Rightarrow>
          (case (if takeWhile is_roman r \<noteq> [] then title_tail (dropWhile is_roman r) else None) of
             Some t \<Rightarrow> Some (takeWhile is_roman r, t)
           | None \<Rightarrow> None))"

text \<open>One word of \<open>^(Word|WORD)\s+(\d+|[IVXLCDM]+)[\s\.:]*(.*)$\<close>; the result is the groups.\<close>

definition after_word :: "ustr \<Rightarrow> ustr \<Rightarrow> ustr list option" where
  "after_word w line =
     (if ic_startswith line w \<and> takeWhile isspace (drop (length w) line) \<noteq> []
      then (case number_then_title (dropWhile isspace (drop (length w) line)) of
              Some (n, t) \<Rightarrow> Some [take (length w) line, n, t]
            | None \<Rightarrow> None)
      else None)"

text \<open>
  \<open>^(\d+)[\.\s]+(.{1,50})$\<close>. The group \<open>(.{1,50})\<close> at the text \<open>t\<close>: up to fifty
  characters before the first newline, at least one, and \<open>$\<close> behind them.
\<close>

definition dot_1_50_eol :: "ustr \<Rightarrow> ustr option" where
  "dot_1_50_eol t =
     (let g = take 50 (takeWhile not_newline t)
      in if 1 \<le> length g \<and> at_eol (drop (length g) t) then Some g else None)"

text \<open>
  When the run of dots and whitespace behind the number reaches the end of the line,
  the group finds nothing to match, and the engine gives back the last character of the
  run (or the one before a final newline) to the group.
\<close>

definition match_numbered :: "ustr \<Rightarrow> ustr list option" where
  "match_numbered line =
     (let ds = takeWhile isdecimal line;
          sp = takeWhile is_dot_space (dropWhile isdecimal line);
          t = dropWhile is_dot_space (dropWhile isdecimal line)
      in if ds = [] \<or> sp = [] then None
         else if t \<noteq> [] then
           (case dot_1_50_eol t of Some g \<Rightarrow> Some [ds, g] | None \<Rightarrow> None)
         else if 2 \<le> length sp \<and> last sp \<noteq> newline then Some [ds, [last sp]]
         else if 3 \<le> length sp \<and> last sp = newline \<and> last (butlast sp) \<noteq> newline
           then Some [ds, [last (butlast sp)]]
         else None)"

text \<open>
  \<^verbatim>\<open>
  self.chapter_patterns = [
      r'^(Chuong|CHUONG)\s+(\d+|[IVXLCDM]+)[\s\.:]*(.*)$',
      r'^(Chapter|CHAPTER)\s+(\d+|[IVXLCDM]+)[\s\.:]*(.*)$',
      r'^(Phan|PHAN)\s+(\d+|[IVXLCDM]+)[\s\.:]*(.*)$',
      r'^(Bai|BAI)\s+(\d+|[IVXLCDM]+)[\s\.:]*(.*)$',
      r'^(\d+)[\.\s]+(.{1,50})$',
  ]
  \<close>
  (the Vietnamese words are written here without their diacritics; the definitions
  below carry the code points of the source).
\<close>

datatype chapter_pattern = WordPattern ustr ustr | NumberedPattern

definition chapter_patterns :: "chapter_pattern list" where
  "chapter_patterns =
     [WordPattern [67, 104, 432, 417, 110, 103] [67, 72, 431, 416, 78, 71],
      WordPattern (ascii ''Chapter'') (ascii ''CHAPTER''),
      WordPattern [80, 104, 7847, 110] [80, 72, 7846, 78],
      WordPattern [66, 224, 105] [66, 192, 73],
      NumberedPattern]"

text \<open>\<open>re.match(pattern, line, re.IGNORECASE)\<close>: the groups of the match, if any.\<close>

fun match_chapter :: "chapter_pattern \<Rightarrow> ustr \<Rightarrow> ustr list option" where
  "match_chapter (WordPattern w1 w2) line =
     (case after_word w1 line of Some gs \<Rightarrow> Some gs | None \<Rightarrow> after_word w2 line)"
| "match_chapter NumberedPattern line = match_numbered line"

text \<open>
  \<^verbatim>\<open>
  def detect_chapter(self, line: str) -> Optional[Tuple[str, str]]:
      line = line.strip()
      if not line or len(line) > 100:
          return None
      for pattern in self.chapter_patterns:
          match = re.match(pattern, line, re.IGNORECASE)
          if match:
              if len(match.groups()) >= 3:
                  chapter_type = match.group(1)
                  chapter_num = match.group(2)
                  chapter_title = match.group(3).strip()
                  full_title = f"{chapter_type} {chapter_num}"
                  if chapter_title:
                      full_title += f": {chapter_title}"
                  return ("CHAPTER", full_title)
              elif len(match.groups()) >= 2:
                  return ("CHAPTER", f"{match.group(1)} {match.group(2)}")
      return None
  \<close>
\<close>

fun chapter_loop :: "chapter_pattern list \<Rightarrow> ustr \<Rightarrow> (ustr \<times> ustr) option" where
  "chapter_loop [] line = None"
| "chapter_loop (p # ps) line =
     (case match_chapter p line of
        None \<Rightarrow> chapter_loop ps line
      | Some (chapter_type # chapter_num # g3 # gs) \<Rightarrow>
          (let chapter_title = strip g3;
               full_title = chapter_type @ ascii '' '' @ chapter_num
           in Some (ascii ''CHAPTER'',
                if chapter_title \<noteq> [] then full_title @ ascii '': '' @ chapter_title
                else full_title))
      | Some [g1, g2] \<Rightarrow> Some (ascii ''CHAPTER'', g1 @ ascii '' '' @ g2)
      | Some gs \<Rightarrow> chapter_loop ps line)"

definition detect_chapter :: "ustr \<Rightarrow> (ustr \<times> ustr) option" where
  "detect_chapter line0 =
     (let line = strip line0
      in if line = [] \<or> length line > 100 then None else chapter_loop chapter_patterns line)"

text \<open>
  \<^verbatim>\<open>
  self.section_patterns = [
      r'^(\d+\.\d+)[\s\.:]+(.*)$',  # 1.1 Section
      r'^([A-Z][A-Z\s]{2,30})$',   # ALL CAPS headings
  ]
  \<close>
  In the first pattern the digits and the dot leave no choice and the tail is
  \<open>title_tail\<close> with at least one separator. In the second, the repetition takes the
  rest of the line, between two and thirty characters; a newline that ends the line
  after thirty characters is left to \<open>$\<close>.
\<close>

datatype section_pattern = NumberedSection | CapsHeading

definition section_patterns :: "section_pattern list" where
  "section_patterns = [NumberedSection, CapsHeading]"

definition match_section_numbered :: "ustr \<Rightarrow> ustr list option" where
  "match_section_numbered line =
     (let d1 = takeWhile isdecimal line;
          r = dropWhile isdecimal line;
          d2 = takeWhile isdecimal (drop 1 r);
          r2 = dropWhile isdecimal (drop 1 r)
      in if d1 = [] \<or> take 1 r \<noteq> [46] \<or> d2 = [] \<or> takeWhile is_sep r2 = [] then None
         else (case title_tail r2 of
                 Some g \<Rightarrow> Some [d1 @ [46] @ d2, g]
               | None \<Rightarrow> None))"

definition match_caps :: "ustr \<Rightarrow> ustr list option" where
  "match_caps line =
     (case line of
        [] \<Rightarrow> None
      | c # cs \<Rightarrow>
          if is_AZ c \<and> list_all (\<lambda>x. is_AZ x \<or> isspace x) cs then
            if 2 \<le> length cs \<and> length cs \<le> 30 then Some [line]
            else if length cs = 31 \<and> last cs = newline then Some [butlast line]
            else None
          else None)"

fun match_section :: "section_pattern \<Rightarrow> ustr \<Rightarrow> ustr list option" where
  "match_section NumberedSection line = match_section_numbered line"
| "match_section CapsHeading line = match_caps line"

text \<open>
  \<^verbatim>\<open>
  def detect_section(self, line: str) -> Optional[Tuple[str, str]]:
      line = line.strip()
      if not line or len(line) > 80:
          return None
      for pattern in self.section_patterns:
          match = re.match(pattern, line)
          if match:
              if len(match.groups()) >= 2:
                  return ("SECTION", f"{match.group(1)} {match.group(2)}")
              else:
                  return ("SECTION", match.group(1))
      return None
  \<close>
\<close>

fun section_loop :: "section_pattern list \<Rightarrow> ustr \<Rightarrow> (ustr \<times> ustr) option" where
  "section_loop [] line = None"
| "section_loop (p # ps) line =
     (case match_section p line of
        None \<Rightarrow> section_loop ps line
      | Some (g1 # g2 # gs) \<Rightarrow> Some (ascii ''SECTION'', g1 @ ascii '' '' @ g2)
      | Some [g1] \<Rightarrow> Some (ascii ''SECTION'', g1)
      | Some [] \<Rightarrow> section_loop ps line)"

definition detect_section :: "ustr \<Rightarrow> (ustr \<times> ustr) option" where
  "detect_section line0 =
     (let line = strip line0
      in if line = [] \<or> length line > 80 then None else section_loop section_patterns line)"

section \<open>The page pipeline and the document extractor\<close>

text \<open>\<open>str(n)\<close> for a page number, \<open>text.split('\n')\<close> and \<open>'\n'.join(lines)\<close>.\<close>

fun str_of_nat :: "nat \<Rightarrow> ustr" where
  "str_of_nat n = (if n < 10 then [48 + n] else str_of_nat (n div 10) @ [48 + n mod 10])"

fun split_nl :: "ustr \<Rightarrow> ustr list" where
  "split_nl [] = [[]]"
| "split_nl (c # cs) =
     (if c = newline then [] # split_nl cs
      else (case split_nl cs of [] \<Rightarrow> [[c]] | l # ls \<Rightarrow> (c # l) # ls))"

fun join_nl :: "ustr list \<Rightarrow> ustr" where
  "join_nl [] = []"
| "join_nl [l] = l"
| "join_nl (l # ls) = l @ newline # join_nl ls"

definition page_marker :: "nat \<Rightarrow> ustr" where
  "page_marker n = ascii ''[PAGE:'' @ str_of_nat n @ ascii '']''"

definition chapter_marker :: "ustr \<Rightarrow> ustr" where
  "chapter_marker title = ascii ''[CHAPTER:'' @ title @ ascii '']''"

definition section_marker :: "ustr \<Rightarrow> ustr" where
  "section_marker title = ascii ''[SECTION:'' @ title @ ascii '']''"

text \<open>
  The body of the loop over the lines of a page; the state is \<open>current_chapter\<close> and
  \<open>page_content\<close>.
  \<^verbatim>\<open>
  for line in lines:
      line = line.strip()
      if not line:
          continue
      chapter_match = self.detect_chapter(line)
      if chapter_match:
          if current_chapter != chapter_match[1]:
              current_chapter = chapter_match[1]
              page_content.append(f"[CHAPTER:{current_chapter}]")
          continue
      section_match = self.detect_section(line)
      if section_match:
          page_content.append(f"[SECTION:{section_match[1]}]")
          continue
      page_content.append(line)
  \<close>
\<close>

definition process_line :: "ustr option \<times> ustr list \<Rightarrow> ustr \<Rightarrow> ustr option \<times> ustr list" where
  "process_line st line0 =
     (let current_chapter = fst st; page_content = snd st; line = strip line0
      in if line = [] then st
         else (case detect_chapter line of
                 Some chapter_match \<Rightarrow>
                   if current_chapter \<noteq> Some (snd chapter_match)
                   then (Some (snd chapter_match),
                         page_content @ [chapter_marker (snd chapter_match)])
                   else st
               | None \<Rightarrow>
                   (case detect_section line of
                      Some section_match \<Rightarrow>
                        (current_chapter, page_content @ [section_marker (snd section_match)])
                    | None \<Rightarrow> (current_chapter, page_content @ [line]))))"

text \<open>
  The body of the loop over the pages; the state is \<open>current_chapter\<close> and
  \<open>extracted_content\<close>, \<open>page_text\<close> is what \<open>page.extract_text()\<close> returned (\<open>None\<close>
  or a string).
  \<^verbatim>\<open>
  page_text = page.extract_text()
  if not page_text:
      continue
  page_text = self.clean_text(page_text)
  if not page_text:
      continue
  lines = page_text.split('\n')
  page_content = []
  for line in lines: ...
  if page_content:
      extracted_content.append(f"[PAGE:{page_num}]")
      extracted_content.extend(page_content)
      extracted_content.append("")
  \<close>
\<close>

definition process_page ::
  "ustr option \<times> ustr list \<Rightarrow> nat \<Rightarrow> ustr option \<Rightarrow> ustr option \<times> ustr list" where
  "process_page st page_num page_text =
     (case page_text of
        None \<Rightarrow> st
      | Some raw \<Rightarrow>
          if raw = [] then st
          else if clean_text raw = [] then st
          else
            (let r = foldl process_line (fst st, []) (split_nl (clean_text raw))
             in if snd r \<noteq> []
                then (fst r, snd st @ [page_marker page_num] @ snd r @ [[]])
                else (fst r, snd st)))"

text \<open>
  Everything that fails inside the \<open>try\<close> block raises an exception of class
  \<open>Exception\<close>: opening the document, extracting the text of a page, opening or
  writing the output file, and printing a message that the console cannot encode.
\<close>

datatype error = OpenError | ExtractError nat | WriteError | EncodeError

type_synonym page = "error + ustr option"

text \<open>\<open>for page_num, page in enumerate(pdf.pages, 1)\<close>; an exception ends the loop.\<close>

fun process_pages ::
  "ustr option \<times> ustr list \<Rightarrow> nat \<Rightarrow> page list \<Rightarrow> error + ustr option \<times> ustr list" where
  "process_pages st page_num [] = Inr st"
| "process_pages st page_num (p # ps) =
     (case p of
        Inl e \<Rightarrow> Inl e
      | Inr page_text \<Rightarrow> process_pages (process_page st page_num page_text) (Suc page_num) ps)"

definition extracted_content :: "page list \<Rightarrow> error + ustr list" where
  "extracted_content pages =
     (case process_pages (None, []) 1 pages of Inl e \<Rightarrow> Inl e | Inr st \<Rightarrow> Inr (snd st))"

text \<open>
  The world outside: what \<open>pdfplumber.open\<close> gives for a path; the text files; the
  paths that \<open>open(path, 'w')\<close> can open; whether writing a content to an opened file
  and closing it succeed, and what a failed write leaves in the file, which \<open>open\<close>
  has truncated; the characters that the console can encode; and \<open>str(e)\<close> for an
  exception.
\<close>

record world =
  pdfs :: "ustr \<Rightarrow> error + page list"
  files :: "ustr \<rightharpoonup> ustr"
  writable :: "ustr \<Rightarrow> bool"
  storable :: "ustr \<Rightarrow> ustr \<Rightarrow> bool"
  torn :: "ustr \<Rightarrow> ustr \<Rightarrow> ustr"
  encodable :: "nat \<Rightarrow> bool"
  message :: "error \<Rightarrow> ustr"

text \<open>
  \<open>print(text, end=...)\<close> raises \<open>UnicodeEncodeError\<close> when the console cannot encode a
  character of the text; what the console shows is not recorded.
\<close>

definition py_print :: "world \<Rightarrow> ustr \<Rightarrow> error + unit" where
  "py_print w text = (if list_all (encodable w) text then Inr () else Inl EncodeError)"

text \<open>
  The loop over the pages as \<open>extract_text_from_pdf\<close> runs it: the progress message
  \<^verbatim>\<open>print(f"Processing page {page_num}/{total_pages}...", end='\r')\<close>
  comes first in the body, then \<open>page.extract_text()\<close> and the steps of \<open>process_page\<close>.
\<close>

fun extract_pages ::
  "world \<Rightarrow> nat \<Rightarrow> ustr option \<times> ustr list \<Rightarrow> nat \<Rightarrow> page list
     \<Rightarrow> error + ustr option \<times> ustr list" where
  "extract_pages w total_pages st page_num [] = Inr st"
| "extract_pages w total_pages st page_num (p # ps) =
     (case py_print w (ascii ''Processing page '' @ str_of_nat page_num @ ascii ''/''
                        @ str_of_nat total_pages @ ascii ''...'' @ [13]) of
        Inl e \<Rightarrow> Inl e
      | Inr u \<Rightarrow>
          (case p of
             Inl e \<Rightarrow> Inl e
           | Inr page_text \<Rightarrow>
               extract_pages w total_pages (process_page st page_num page_text)
                 (Suc page_num) ps))"

text \<open>
  \<^verbatim>\<open>
  with open(output_path, 'w', encoding='utf-8') as f:
      f.write('\n'.join(extracted_content))
  \<close>
  Opening may fail, and then the files are as before; writing may fail after the file
  has been opened and truncated.
\<close>

definition write_output :: "world \<Rightarrow> ustr \<Rightarrow> ustr \<Rightarrow> (error + unit) \<times> world" where
  "write_output w output_path content =
     (if \<not> writable w output_path then (Inl WriteError, w)
      else if storable w output_path content
        then (Inr (), w\<lparr>files := (files w)(output_path \<mapsto> content)\<rparr>)
      else (Inl WriteError,
            w\<lparr>files := (files w)(output_path \<mapsto> torn w output_path content)\<rparr>))"

text \<open>
  The \<open>try\<close> block of \<open>extract_text_from_pdf\<close>: how it ends, and the world it leaves.
  \<^verbatim>\<open>
  print(f"Processing: {pdf_path}")
  with pdfplumber.open(pdf_path) as pdf:
      total_pages = len(pdf.pages)
      print(f"Total pages: {total_pages}")
      extracted_content = []
      current_chapter = None
      for page_num, page in enumerate(pdf.pages, 1): ...
      print(f"\nExtraction completed. Writing to: {output_path}")
      with open(output_path, 'w', encoding='utf-8') as f:
          f.write('\n'.join(extracted_content))
      print(f"Successfully extracted {total_pages} pages to {output_path}")
      return True
  \<close>
\<close>

definition extract_body :: "world \<Rightarrow> ustr \<Rightarrow> ustr \<Rightarrow> (error + unit) \<times> world" where
  "extract_body w pdf_path output_path =
     (case py_print w (ascii ''Processing: '' @ pdf_path @ [newline]) of
        Inl e \<Rightarrow> (Inl e, w)
      | Inr u \<Rightarrow>
     (case pdfs w pdf_path of
        Inl e \<Rightarrow> (Inl e, w)
      | Inr pages \<Rightarrow>
     (case py_print w (ascii ''Total pages: '' @ str_of_nat (length pages) @ [newline]) of
        Inl e \<Rightarrow> (Inl e, w)
      | Inr u \<Rightarrow>
     (case extract_pages w (length pages) (None, []) 1 pages of
        Inl e \<Rightarrow> (Inl e, w)
      | Inr st \<Rightarrow>
     (case py_print w ([newline] @ ascii ''Extraction completed. Writing to: ''
                        @ output_path @ [newline]) of
        Inl e \<Rightarrow> (Inl e, w)
      | Inr u \<Rightarrow>
     (case write_output w output_path (join_nl (snd st)) of
        (Inl e, w') \<Rightarrow> (Inl e, w')
      | (Inr u, w') \<Rightarrow>
     (case py_print w' (ascii ''Successfully extracted '' @ str_of_nat (length pages)
                         @ ascii '' pages to '' @ output_path @ [newline]) of
        Inl e \<Rightarrow> (Inl e, w')
      | Inr u \<Rightarrow> (Inr (), w'))))))))"

text \<open>
  \<^verbatim>\<open>
  def extract_text_from_pdf(self, pdf_path: str, output_path: str) -> bool:
      try:
          ...
      except Exception as e:
          print(f"Error processing {pdf_path}: {str(e)}")
          return False
  \<close>
  The result is \<open>Inr\<close> with the truth value that the caller receives, or \<open>Inl\<close> with
  the exception that reaches the caller: the \<open>print\<close> of the handler stands in no
  \<open>try\<close>.
\<close>

definition extract_text_from_pdf :: "world \<Rightarrow> ustr \<Rightarrow> ustr \<Rightarrow> error + bool \<times> world" where
  "extract_text_from_pdf w pdf_path output_path =
     (case extract_body w pdf_path output_path of
        (Inr u, w') \<Rightarrow> Inr (True, w')
      | (Inl e, w') \<Rightarrow>
          (case py_print w' (ascii ''Error processing '' @ pdf_path @ ascii '': ''
                              @ message w' e @ [newline]) of
             Inl e' \<Rightarrow> Inl e'
           | Inr u \<Rightarrow> Inr (False, w')))"

section \<open>Batch metadata\<close>

text \<open>
  \<open>content.count(sub)\<close>: the occurrences of \<open>sub\<close> that do not overlap, found from left
  to right; \<open>content.find(sub, start)\<close>: the first index from \<open>start\<close> on where \<open>sub\<close>
  occurs, \<open>None\<close> for \<open>-1\<close>.
\<close>

function str_count :: "ustr \<Rightarrow> ustr \<Rightarrow> nat" where
  "str_count s sub =
     (if sub = [] then length s + 1
      else if s = [] then 0
      else if startswith s sub then 1 + str_count (drop (length sub) s) sub
      else str_count (tl s) sub)"
  by pat_completeness auto
termination
  by (relation "measure (\<lambda>(s, sub). length s)") auto

declare str_count.simps [simp del]

fun find_from :: "ustr \<Rightarrow> ustr \<Rightarrow> nat \<Rightarrow> nat option" where
  "find_from [] sub i = (if sub = [] then Some i else None)"
| "find_from (c # cs) sub i =
     (if startswith (c # cs) sub then Some i else find_from cs sub (Suc i))"

definition str_find :: "ustr \<Rightarrow> ustr \<Rightarrow> nat \<Rightarrow> nat option" where
  "str_find s sub start =
     (if start \<le> length s then find_from (drop start s) sub start else None)"

text \<open>
  \<^verbatim>\<open>
  def count_pages_in_text(self, text_file: str) -> int:
      try:
          with open(text_file, 'r', encoding='utf-8') as f:
              content = f.read()
          page_count = content.count('[PAGE:')
          return page_count if page_count > 0 else 1
      except Exception:
          return 1
  \<close>
  Reading a file that is not there raises.
\<close>

definition count_pages_in_text :: "world \<Rightarrow> ustr \<Rightarrow> nat" where
  "count_pages_in_text w text_file =
     (case files w text_file of
        None \<Rightarrow> 1
      | Some content \<Rightarrow>
          (let page_count = str_count content (ascii ''[PAGE:'')
           in if page_count > 0 then page_count else 1))"

record book_info =
  title :: "ustr option"
  chapter_count :: nat
  description :: ustr

text \<open>
  The loop that collects the description:
  \<^verbatim>\<open>
  for line in lines:
      if line.strip() and not line.startswith('['):
          description_lines.append(line.strip())
          if len(description_lines) >= 3:
              break
  \<close>
\<close>

fun description_loop :: "ustr list \<Rightarrow> ustr list \<Rightarrow> ustr list" where
  "description_loop acc [] = acc"
| "description_loop acc (line # lines) =
     (if strip line \<noteq> [] \<and> \<not> startswith line (ascii ''['')
      then (if length (acc @ [strip line]) \<ge> 3 then acc @ [strip line]
            else description_loop (acc @ [strip line]) lines)
      else description_loop acc lines)"

fun join_space :: "ustr list \<Rightarrow> ustr" where
  "join_space [] = []"
| "join_space [l] = l"
| "join_space (l # ls) = l @ 32 # join_space ls"

text \<open>
  \<^verbatim>\<open>
  def extract_book_info(self, text_file: str) -> dict:
      try:
          with open(text_file, 'r', encoding='utf-8') as f:
              content = f.read()
          title = None
          first_chapter_match = content.find('[CHAPTER:')
          if first_chapter_match != -1:
              end_match = content.find(']', first_chapter_match)
              if end_match != -1:
                  title = content[first_chapter_match + 9:end_match]
          chapter_count = content.count('[CHAPTER:')
          lines = content.split('\n')
          description_lines = []
          for line in lines: ...
          description = ' '.join(description_lines)[:200] + "..." if description_lines else ""
          return {'title': title, 'chapter_count': chapter_count, 'description': description}
      except Exception:
          return {'title': None, 'chapter_count': 0, 'description': ''}
  \<close>
\<close>

definition extract_book_info :: "world \<Rightarrow> ustr \<Rightarrow> book_info" where
  "extract_book_info w text_file =
     (case files w text_file of
        None \<Rightarrow> \<lparr>title = None, chapter_count = 0, description = []\<rparr>
      | Some content \<Rightarrow>
          (let title =
                 (case str_find content (ascii ''[CHAPTER:'') 0 of
                    None \<Rightarrow> None
                  | Some first_chapter_match \<Rightarrow>
                      (case str_find content (ascii '']'') first_chapter_match of
                         None \<Rightarrow> None
                       | Some end_match \<Rightarrow>
                           Some (drop (first_chapter_match + 9) (take end_match content))));
               chapter_count = str_count content (ascii ''[CHAPTER:'');
               description_lines = description_loop [] (split_nl content);
               description =
                 (if description_lines \<noteq> []
                  then take 200 (join_space description_lines) @ ascii ''...''
                  else [])
           in \<lparr>title = title, chapter_count = chapter_count, description = description\<rparr>))"

section \<open>Notions used to state the properties\<close>

text \<open>The number of positions of a text at which a token occurs.\<close>

fun occurrences :: "ustr \<Rightarrow> ustr \<Rightarrow> nat" where
  "occurrences [] sub = 0"
| "occurrences (c # cs) sub = (if startswith (c # cs) sub then 1 else 0) + occurrences cs sub"

text \<open>
  The shape of a heading in capitals: an ASCII capital letter followed by two to thirty
  ASCII capital letters or whitespace characters.
\<close>

definition caps_shape :: "ustr \<Rightarrow> bool" where
  "caps_shape line \<longleftrightarrow>
     3 \<le> length line \<and> length line \<le> 31 \<and> is_AZ (hd line) \<and>
     list_all (\<lambda>c. is_AZ c \<or> isspace c) (tl line)"

text \<open>The chapter markers among the lines of an output.\<close>

definition chapter_markers :: "ustr list \<Rightarrow> ustr list" where
  "chapter_markers ls = filter (\<lambda>l. startswith l (ascii ''[CHAPTER:'')) ls"

section \<open>Example inputs\<close>

text \<open>
  The page of the end-to-end example, \<open>Chuong 1: Mo dau\<close> and \<open>Noi dung dau tien.\<close>
  in two lines, with the code points of the Vietnamese letters, and its two lines
  taken alone.
\<close>

definition example_page :: ustr where
  "example_page = [67, 104, 432, 417, 110, 103, 32, 49, 58, 32, 77, 7903, 32, 273, 7847, 117,
     10, 78, 7897, 105, 32, 100, 117, 110, 103, 32, 273, 7847, 117, 32, 116, 105, 234, 110, 46]"

definition example_heading :: ustr where
  "example_heading = [67, 104, 432, 417, 110, 103, 32, 49, 58, 32, 77, 7903, 32, 273, 7847, 117]"

definition example_body :: ustr where
  "example_body = [78, 7897, 105, 32, 100, 117, 110, 103, 32, 273, 7847, 117, 32, 116, 105,
     234, 110, 46]"

text \<open>Two pages with the same running header and different text below it.\<close>

definition running_header_pages :: "page list" where
  "running_header_pages =
     [Inr (Some (ascii ''Chapter 1'' @ [newline] @ ascii ''foo'')),
      Inr (Some (ascii ''Chapter 1'' @ [newline] @ ascii ''bar''))]"

text \<open>
  A console that encodes ASCII only, in a world where every document opens and every
  file can be written; and the path \<open>Chuong.pdf\<close> with its two Vietnamese letters.
\<close>

definition ascii_console_world :: world where
  "ascii_console_world =
     \<lparr>pdfs = (\<lambda>p. Inr [Inr (Some (ascii ''hello''))]),
      files = Map.empty,
      writable = (\<lambda>p. True),
      storable = (\<lambda>p c. True),
      torn = (\<lambda>p c. []),
      encodable = (\<lambda>c. c < 128),
      message = (\<lambda>e. ascii ''error'')\<rparr>"

definition chuong_pdf :: ustr where
  "chuong_pdf = [67, 104, 432, 417, 110, 103] @ ascii ''.pdf''"

text \<open>
  A produced text file in which page 2 was skipped, in a world that also holds an empty
  file.
\<close>

definition sparse_file :: ustr where
  "sparse_file = join_nl [ascii ''[PAGE:1]'', ascii ''[CHAPTER:Chapter 1]'', ascii ''text'', [],
     ascii ''[PAGE:3]'', ascii ''[CHAPTER:Chapter 2]'', []]"

definition sparse_world :: world where
  "sparse_world = \<lparr>pdfs = (\<lambda>p. Inl OpenError),
     files = [ascii ''book.txt'' \<mapsto> sparse_file, ascii ''empty.txt'' \<mapsto> []],
     writable = (\<lambda>p. True),
     storable = (\<lambda>p c. True),
     torn = (\<lambda>p c. []),
     encodable = (\<lambda>c. True),
     message = (\<lambda>e. [])\<rparr>"

text \<open>The definitions that evaluation on a concrete text unfolds.\<close>

lemmas eval_normalizer = clean_text_def ascii_def isspace_def isdecimal_def nd_blocks_def
  strip_def lstrip_def rstrip_def match_page_line_def skip_word_def match_number_eol_def
  startswith_def newline_def Let_def

lemmas eval_classifier = eval_normalizer ic_fold_def ic_startswith_def is_roman_def is_sep_def
  is_dot_space_def is_AZ_def at_eol_def not_newline_def title_tail_def number_then_title_def
  after_word_def dot_1_50_eol_def match_numbered_def chapter_patterns_def detect_chapter_def
  section_patterns_def match_section_numbered_def match_caps_def detect_section_def

lemmas eval_pipeline = eval_classifier page_marker_def chapter_marker_def section_marker_def
  process_line_def process_page_def extracted_content_def

section \<open>Properties of the text normalizer\<close>


lemma isspace_newline: "isspace newline"
  by (simp add: isspace_def newline_def)

lemma collapse_ws_space: "c \<in> set (collapse_ws t) \<Longrightarrow> isspace c \<Longrightarrow> c = 32"
  by (induction t rule: collapse_ws.induct) (auto split: if_splits)

lemma collapse_ws_no_newline: "newline \<notin> set (collapse_ws t)"
proof
  assume "newline \<in> set (collapse_ws t)"
  from collapse_ws_space [OF this isspace_newline] show False
    by (simp add: newline_def)
qed

lemma match_number_eol_no_newline:
  assumes "newline \<notin> set r" and "match_number_eol r = Some rest"
  shows "rest = []"
proof -
  have "set (takeWhile isspace (dropWhile isdecimal r)) \<subseteq> set r"
    by (meson set_takeWhileD set_dropWhileD subsetI)
  with assms(1) have "newline \<notin> set (takeWhile isspace (dropWhile isdecimal r))"
    by blast
  with assms(2) show ?thesis
    by (simp add: match_number_eol_def Let_def split: if_splits)
qed

lemma skip_word_set: "skip_word w r0 = Some r \<Longrightarrow> set r \<subseteq> set r0"
proof (cases w)
  case None
  assume "skip_word w r0 = Some r"
  with None show ?thesis by (simp add: skip_word_def)
next
  case (Some word)
  assume "skip_word w r0 = Some r"
  with Some have "r = dropWhile isspace (drop (length word) r0)"
    by (simp add: skip_word_def split: if_splits)
  then show ?thesis
    by (auto dest!: set_dropWhileD in_set_dropD)
qed

lemma match_page_line_no_newline:
  assumes "newline \<notin> set t" and "match_page_line w t = Some (consumed, rest)"
  shows "rest = []"
proof -
  from assms(2) obtain r where r: "skip_word w (dropWhile isspace t) = Some r"
    and m: "match_number_eol r = Some rest"
    by (auto simp: match_page_line_def split: option.splits)
  from skip_word_set [OF r] have "set r \<subseteq> set t"
    by (auto dest: set_dropWhileD)
  with assms(1) have "newline \<notin> set r" by blast
  from match_number_eol_no_newline [OF this m] show ?thesis .
qed

lemma sub_page_line_False: "newline \<notin> set t \<Longrightarrow> sub_page_line w False t = t"
  by (induction t) auto

lemma sub_page_line_True:
  assumes "newline \<notin> set t"
  shows "sub_page_line w True t = (if match_page_line w t = None then t else [])"
proof (cases t)
  case Nil
  then show ?thesis by simp
next
  case (Cons c cs)
  show ?thesis
  proof (cases "match_page_line w t")
    case None
    with Cons assms show ?thesis by (simp add: sub_page_line_False)
  next
    case (Some p)
    obtain consumed rest where p: "p = (consumed, rest)" by (cases p)
    from match_page_line_no_newline [OF assms] Some p have "rest = []" by simp
    with Some p Cons show ?thesis by simp
  qed
qed

lemma squeeze_breaks_id: "newline \<notin> set t \<Longrightarrow> squeeze_breaks t = t"
  by (induction t) (auto simp: Let_def)

lemma match_page_line_Nil: "match_page_line w [] = None"
  by (cases w) (simp_all add: match_page_line_def skip_word_def match_number_eol_def startswith_def)

lemma clean_text_eq:
  "clean_text text =
     (if text = [] \<or> page_number_line (collapse_ws text) then [] else strip (collapse_ws text))"
proof -
  have nl: "newline \<notin> set (collapse_ws text)" by (rule collapse_ws_no_newline)
  have e: "strip [] = []" by (simp add: strip_def lstrip_def rstrip_def)
  show ?thesis
    using nl
    by (auto simp: clean_text_def Let_def sub_page_line_True squeeze_breaks_id
        page_number_line_def match_page_line_Nil e)
qed

lemma hd_collapse_ws: "t \<noteq> [] \<Longrightarrow> \<not> isspace (hd t) \<Longrightarrow> hd (collapse_ws t) = hd t"
  by (cases t) auto

lemma collapse_ws_Nil_iff: "collapse_ws t = [] \<longleftrightarrow> t = []"
  by (cases t) auto

lemma single_spaced_collapse_ws: "single_spaced (collapse_ws t)"
proof (induction t rule: collapse_ws.induct)
  case 1
  show ?case by simp
next
  case (2 c cs)
  show ?case
  proof (cases "isspace c")
    case True
    define d where "d = dropWhile isspace cs"
    have "d = [] \<or> \<not> isspace (hd d)"
      unfolding d_def using hd_dropWhile [of isspace cs] by blast
    then have "collapse_ws d = [] \<or> \<not> isspace (hd (collapse_ws d))"
    proof
      assume "d = []"
      then show ?thesis by simp
    next
      assume h: "\<not> isspace (hd d)"
      show ?thesis
      proof (cases "d = []")
        case True
        then show ?thesis by simp
      next
        case False
        from hd_collapse_ws [OF False h] h show ?thesis by simp
      qed
    qed
    moreover from True 2 have "single_spaced (collapse_ws d)" by (simp add: d_def)
    ultimately show ?thesis using True by (simp add: d_def)
  next
    case False
    with 2 show ?thesis by simp
  qed
qed

lemma collapse_ws_fixed: "single_spaced u \<Longrightarrow> collapse_ws u = u"
proof (induction u)
  case Nil
  show ?case by simp
next
  case (Cons c cs)
  show ?case
  proof (cases "isspace c")
    case True
    with Cons.prems have c: "c = 32" and h: "cs = [] \<or> \<not> isspace (hd cs)" by simp_all
    from h have "dropWhile isspace cs = cs" by (cases cs) auto
    with True c Cons show ?thesis by simp
  next
    case False
    with Cons show ?thesis by simp
  qed
qed

lemma single_spaced_suffix: "single_spaced (xs @ ys) \<Longrightarrow> single_spaced ys"
  by (induction xs) auto

lemma single_spaced_prefix: "single_spaced (xs @ ys) \<Longrightarrow> single_spaced xs"
proof (induction xs)
  case Nil
  show ?case by simp
next
  case (Cons c xs)
  then show ?case by (cases xs) auto
qed

lemma lstrip_suffix: "takeWhile isspace s @ lstrip s = s"
  by (simp add: lstrip_def)

lemma rstrip_prefix: "rstrip s @ rev (takeWhile isspace (rev s)) = s"
proof -
  have "rev (takeWhile isspace (rev s) @ dropWhile isspace (rev s)) = s" by simp
  then show ?thesis by (simp only: rev_append rstrip_def)
qed

lemma single_spaced_strip: "single_spaced s \<Longrightarrow> single_spaced (strip s)"
proof -
  assume a: "single_spaced s"
  have "single_spaced (lstrip s)"
    using a single_spaced_suffix [of "takeWhile isspace s" "lstrip s"]
    by (simp add: lstrip_suffix)
  then show ?thesis
    using single_spaced_prefix [of "rstrip (lstrip s)" "rev (takeWhile isspace (rev (lstrip s)))"]
    by (simp add: rstrip_prefix strip_def)
qed

lemma rstrip_idem: "rstrip (rstrip s) = rstrip s"
  by (simp add: rstrip_def)

lemma lstrip_head: "lstrip s = [] \<or> \<not> isspace (hd (lstrip s))"
  unfolding lstrip_def using hd_dropWhile [of isspace s] by blast

lemma rstrip_keeps_head:
  assumes "v \<noteq> []" and "\<not> isspace (hd v)"
  shows "rstrip v \<noteq> [] \<and> hd (rstrip v) = hd v"
proof -
  have v: "rstrip v @ rev (takeWhile isspace (rev v)) = v" by (rule rstrip_prefix)
  have "rstrip v \<noteq> []"
  proof
    assume "rstrip v = []"
    with v have "rev (takeWhile isspace (rev v)) = v" by simp
    then have "set v = set (takeWhile isspace (rev v))" by (metis set_rev)
    moreover from assms(1) have "hd v \<in> set v" by simp
    ultimately have "isspace (hd v)" by (auto dest: set_takeWhileD)
    with assms(2) show False by simp
  qed
  moreover from this v have "hd (rstrip v) = hd v" by (metis hd_append2)
  ultimately show ?thesis by simp
qed

lemma lstrip_strip: "lstrip (strip s) = strip s"
proof (cases "lstrip s = []")
  case True
  then have "strip s = []" by (simp add: strip_def rstrip_def)
  then show ?thesis by (simp add: lstrip_def)
next
  case False
  with lstrip_head [of s] have h: "\<not> isspace (hd (lstrip s))" by simp
  from rstrip_keeps_head [OF False h]
  have "rstrip (lstrip s) \<noteq> []" and "\<not> isspace (hd (rstrip (lstrip s)))"
    using h by simp_all
  then have "dropWhile isspace (rstrip (lstrip s)) = rstrip (lstrip s)"
    by (cases "rstrip (lstrip s)") auto
  then show ?thesis by (simp add: strip_def lstrip_def)
qed

lemma strip_idem: "strip (strip s) = strip s"
proof -
  have "strip (strip s) = rstrip (lstrip (strip s))" by (simp add: strip_def)
  also have "\<dots> = rstrip (strip s)" by (simp only: lstrip_strip)
  also have "\<dots> = strip s" by (simp add: strip_def rstrip_idem)
  finally show ?thesis .
qed

lemma set_strip: "set (strip s) \<subseteq> set s"
proof -
  have "set (rstrip (lstrip s)) \<subseteq> set (lstrip s)"
    unfolding rstrip_def by (auto dest: set_dropWhileD)
  moreover have "set (lstrip s) \<subseteq> set s"
    unfolding lstrip_def by (auto dest: set_dropWhileD)
  ultimately show ?thesis unfolding strip_def by (rule subset_trans)
qed

lemma isspace_cases:
  "isspace c \<Longrightarrow> c \<in> set [9, 10, 11, 12, 13, 28, 29, 30, 31, 32, 133, 160, 5760, 8192, 8193,
     8194, 8195, 8196, 8197, 8198, 8199, 8200, 8201, 8202, 8232, 8233, 8239, 8287, 12288]"
  unfolding isspace_def by (simp only: list.set insert_iff empty_iff) arith

lemma whitespace_table_not_decimal:
  "\<forall>c\<in>set [9, 10, 11, 12, 13, 28, 29, 30, 31, 32, 133, 160, 5760, 8192, 8193,
     8194, 8195, 8196, 8197, 8198, 8199, 8200, 8201, 8202, 8232, 8233, 8239, 8287, 12288].
     \<not> isdecimal c"
  by (simp add: isdecimal_def nd_blocks_def)

lemma space_not_decimal: "isspace c \<Longrightarrow> \<not> isdecimal c"
  using isspace_cases [of c] whitespace_table_not_decimal by blast

lemma takeWhile_append_stop:
  "(ys = [] \<or> \<not> P (hd ys)) \<Longrightarrow> takeWhile P (xs @ ys) = takeWhile P xs"
  by (induction xs) (auto simp: takeWhile_eq_Nil_iff neq_Nil_conv)

lemma dropWhile_append_stop:
  "(ys = [] \<or> \<not> P (hd ys)) \<Longrightarrow> dropWhile P (xs @ ys) = dropWhile P xs @ ys"
  by (induction xs) (auto simp: dropWhile_eq_self_iff neq_Nil_conv)

lemma dropWhile_append_all:
  "dropWhile P xs = [] \<Longrightarrow> \<forall>y\<in>set ys. P y \<Longrightarrow> dropWhile P (xs @ ys) = []"
  by (induction xs) (auto split: if_splits)

lemma match_number_eol_extend:
  assumes m: "match_number_eol r = Some rest"
    and nl: "newline \<notin> set r"
    and b: "\<forall>c\<in>set b. isspace c"
  shows "match_number_eol (r @ b) = Some []"
proof -
  have ds: "takeWhile isdecimal r \<noteq> []"
    using m by (simp add: match_number_eol_def Let_def split: if_splits)
  have "set (takeWhile isspace (dropWhile isdecimal r)) \<subseteq> set r"
    by (meson set_takeWhileD set_dropWhileD subsetI)
  with nl have "newline \<notin> set (takeWhile isspace (dropWhile isdecimal r))" by blast
  with m have r4: "dropWhile isspace (dropWhile isdecimal r) = []"
    by (simp add: match_number_eol_def Let_def split: if_splits)
  have stop: "b = [] \<or> \<not> isdecimal (hd b)"
    using b space_not_decimal by (cases b) auto
  have t: "takeWhile isdecimal (r @ b) = takeWhile isdecimal r"
    using stop by (rule takeWhile_append_stop)
  have d: "dropWhile isdecimal (r @ b) = dropWhile isdecimal r @ b"
    using stop by (rule dropWhile_append_stop)
  have "dropWhile isspace (dropWhile isdecimal (r @ b)) = []"
    unfolding d by (rule dropWhile_append_all [OF r4 b])
  with ds t show ?thesis
    by (simp add: match_number_eol_def Let_def)
qed

lemma skip_word_extend:
  assumes s: "skip_word w x = Some r" and r: "r \<noteq> []"
  shows "skip_word w (x @ b) = Some (r @ b)"
proof (cases w)
  case None
  with s show ?thesis by (simp add: skip_word_def)
next
  case (Some word)
  define y where "y = drop (length word) x"
  from s Some have sw: "take (length word) x = word"
    and ty: "takeWhile isspace y \<noteq> []"
    and ry: "r = dropWhile isspace y"
    by (simp_all add: skip_word_def startswith_def y_def split: if_splits)
  from arg_cong [OF sw, of length] have len: "length word \<le> length x"
    by simp
  from len sw have 1: "take (length word) (x @ b) = word" by simp
  from len have 2: "drop (length word) (x @ b) = y @ b" by (simp add: y_def)
  from ty have "y \<noteq> []" and "isspace (hd y)"
    by (auto simp: takeWhile_eq_Nil_iff)
  then have 3: "takeWhile isspace (y @ b) \<noteq> []"
    by (cases y) auto
  from r ry obtain e where "e \<in> set y" and "\<not> isspace e"
    by (metis dropWhile_eq_Nil_conv)
  then have 4: "dropWhile isspace (y @ b) = dropWhile isspace y @ b"
    by (rule dropWhile_append1)
  from 1 2 3 4 ry Some show ?thesis
    by (simp add: skip_word_def startswith_def)
qed

lemma match_page_line_strip:
  assumes nl: "newline \<notin> set u"
    and m: "match_page_line w (strip u) \<noteq> None"
  shows "match_page_line w u \<noteq> None"
proof -
  define v where "v = lstrip u"
  define b where "b = rev (takeWhile isspace (rev v))"
  have vb: "rstrip v @ b = v" unfolding b_def by (rule rstrip_prefix)
  have b: "\<forall>c\<in>set b. isspace c"
    unfolding b_def by (auto dest: set_takeWhileD)
  have sv: "strip u = rstrip v" by (simp add: strip_def v_def)
  have "dropWhile isspace (strip u) = strip u"
    using lstrip_strip [of u] by (simp add: lstrip_def)
  with m obtain r rest where r: "skip_word w (rstrip v) = Some r"
    and e: "match_number_eol r = Some rest"
    by (auto simp: match_page_line_def sv split: option.splits)
  from e have rne: "r \<noteq> []"
    by (auto simp: match_number_eol_def Let_def split: if_splits)
  have "set r \<subseteq> set (rstrip v)" by (rule skip_word_set [OF r])
  also have "\<dots> \<subseteq> set u" using set_strip [of u] by (simp add: sv)
  finally have nlr: "newline \<notin> set r" using nl by blast
  have "skip_word w (rstrip v @ b) = Some (r @ b)"
    by (rule skip_word_extend [OF r rne])
  then have "skip_word w v = Some (r @ b)"
    by (simp only: vb)
  then have "skip_word w (dropWhile isspace u) = Some (r @ b)"
    by (simp add: v_def lstrip_def)
  moreover have "match_number_eol (r @ b) = Some []"
    by (rule match_number_eol_extend [OF e nlr b])
  ultimately show ?thesis by (simp add: match_page_line_def)
qed

lemma page_number_line_strip:
  "newline \<notin> set u \<Longrightarrow> page_number_line (strip u) \<Longrightarrow> page_number_line u"
  unfolding page_number_line_def using match_page_line_strip by blast

lemma clean_text_idem: "clean_text (clean_text s) = clean_text s"
proof (cases "s = [] \<or> page_number_line (collapse_ws s)")
  case True
  then have "clean_text s = []" by (simp only: clean_text_eq if_True)
  then show ?thesis by (simp add: clean_text_eq)
next
  case False
  define u where "u = collapse_ws s"
  from False have c: "clean_text s = strip u" by (simp only: clean_text_eq u_def if_False)
  have "single_spaced (strip u)"
    unfolding u_def by (rule single_spaced_strip [OF single_spaced_collapse_ws])
  then have fixd: "collapse_ws (strip u) = strip u" by (rule collapse_ws_fixed)
  have nl: "newline \<notin> set u" unfolding u_def by (rule collapse_ws_no_newline)
  from False have "\<not> page_number_line u" by (simp add: u_def)
  with page_number_line_strip [OF nl] have np: "\<not> page_number_line (strip u)" by blast
  show ?thesis
  proof (cases "strip u = []")
    case True
    with c show ?thesis by (simp add: clean_text_eq)
  next
    case False
    have "clean_text (strip u) = strip (strip u)"
      using False np by (simp only: clean_text_eq fixd simp_thms if_False)
    with c show ?thesis by (simp add: strip_idem)
  qed
qed

section \<open>The normalizer: single line, idempotence, page numbers\<close>

lemma split_nl_no_newline: "newline \<notin> set t \<Longrightarrow> split_nl t = [t]"
  by (induction t) auto

lemma clean_text_no_newline: "newline \<notin> set (clean_text s)"
proof (cases "s = [] \<or> page_number_line (collapse_ws s)")
  case True
  then have "clean_text s = []" by (simp only: clean_text_eq if_True)
  then show ?thesis by simp
next
  case False
  then have "clean_text s = strip (collapse_ws s)" by (simp only: clean_text_eq if_False)
  with set_strip [of "collapse_ws s"] collapse_ws_no_newline [of s] show ?thesis by auto
qed

text \<open>
  C10. For every input string the output of \<open>clean_text\<close> holds no newline: the first
  step replaces every run of whitespace, newlines included, by one space. The
  normalized text of a page is therefore one line, and splitting it at newlines gives
  exactly that one line to the classifier.
\<close>

theorem clean_text_single_line:
  "newline \<notin> set (clean_text s) \<and> split_nl (clean_text s) = [clean_text s]"
  using clean_text_no_newline [of s] by (simp add: split_nl_no_newline)

text \<open>
  C7. The normalizer is idempotent: normalizing a normalized text returns it unchanged.
\<close>

theorem clean_text_idempotent: "clean_text (clean_text s) = clean_text s"
  by (rule clean_text_idem)

text \<open>
  C2. The claim is that a line of the raw page text that holds only a number is removed
  before the whitespace is collapsed, so that \<open>abc\n12\ndef\<close> loses its \<open>12\<close>. The code
  collapses first: the three lines become the one line \<open>abc 12 def\<close>, which is not a
  page-number line, and the number stays.
\<close>

theorem clean_text_keeps_inner_number:
  "clean_text (ascii ''abc'' @ [newline] @ ascii ''12'' @ [newline] @ ascii ''def'')
     = ascii ''abc 12 def''"
  by (simp add: eval_normalizer)

section \<open>The pipeline on the example page\<close>

text \<open>
  C1. The claim is that the example page gives the lines \<open>[PAGE:1]\<close>, the chapter marker
  of the heading, the body line and an empty line. The code collapses the newline
  between heading and body, the whole page is one line that matches the first chapter
  pattern, and the body becomes part of the chapter title: three lines, no body line.
\<close>

theorem example_page_output:
  "extracted_content [Inr (Some example_page)]
     = Inr [ascii ''[PAGE:1]'',
            ascii ''[CHAPTER:'' @ example_heading @ ascii '' '' @ example_body @ ascii '']'',
            []]
   \<and> extracted_content [Inr (Some example_page)]
     \<noteq> Inr [ascii ''[PAGE:1]'', ascii ''[CHAPTER:'' @ example_heading @ ascii '']'',
            example_body, []]"
  by (simp add: eval_pipeline example_page_def example_heading_def example_body_def)

section \<open>Trimmed lines\<close>

lemma strip_id:
  assumes "l \<noteq> []" and "\<not> isspace (hd l)" and "\<not> isspace (last l)"
  shows "strip l = l"
proof -
  from assms(1,2) have l: "lstrip l = l" by (cases l) (auto simp: lstrip_def)
  from assms(1,3) have "dropWhile isspace (rev l) = rev l"
    by (cases "rev l") (auto simp: last_rev [symmetric] simp del: last_rev)
  then show ?thesis by (simp add: strip_def l rstrip_def)
qed

lemma strip_append_spaces:
  assumes b: "\<forall>c\<in>set b. isspace c" and s: "\<exists>x\<in>set s. \<not> isspace x"
  shows "strip (s @ b) = strip s"
proof -
  from s obtain x where "x \<in> set s" and "\<not> isspace x" by blast
  then have l: "lstrip (s @ b) = lstrip s @ b"
    unfolding lstrip_def by (rule dropWhile_append1)
  have "dropWhile isspace (rev b @ rev (lstrip s)) = dropWhile isspace (rev (lstrip s))"
    using b by (intro dropWhile_append2) simp
  then show ?thesis by (simp add: strip_def l rstrip_def)
qed

lemma trimmed_ends:
  assumes "strip line = line" and "line \<noteq> []"
  shows "\<not> isspace (hd line)" and "\<not> isspace (last line)"
proof -
  from lstrip_strip [of line] assms(1) have "lstrip line = line" by simp
  with lstrip_head [of line] assms(2) show "\<not> isspace (hd line)" by simp
  from assms have "rstrip (lstrip line) \<noteq> []" by (simp add: strip_def)
  then have "dropWhile isspace (rev (lstrip line)) \<noteq> []" by (simp add: rstrip_def)
  then have "\<not> isspace (hd (dropWhile isspace (rev (lstrip line))))"
    by (rule hd_dropWhile)
  moreover have "last line = hd (dropWhile isspace (rev (lstrip line)))"
  proof -
    have "last (strip line) = last (rev (dropWhile isspace (rev (lstrip line))))"
      by (simp add: strip_def rstrip_def)
    also have "\<dots> = hd (dropWhile isspace (rev (lstrip line)))"
      using \<open>dropWhile isspace (rev (lstrip line)) \<noteq> []\<close> by (simp add: last_rev)
    finally show ?thesis by (simp add: assms(1))
  qed
  ultimately show "\<not> isspace (last line)" by simp
qed

lemma detect_chapter_strip: "detect_chapter (strip line) = detect_chapter line"
  by (simp add: detect_chapter_def strip_idem)

lemma detect_section_strip: "detect_section (strip line) = detect_section line"
  by (simp add: detect_section_def strip_idem)

lemma process_line_trimmed:
  assumes "line \<noteq> []" and "strip line = line"
  shows "process_line (cur, content) line =
     (case detect_chapter line of
        Some m \<Rightarrow> if cur \<noteq> Some (snd m) then (Some (snd m), content @ [chapter_marker (snd m)])
                  else (cur, content)
      | None \<Rightarrow>
          (case detect_section line of
             Some m \<Rightarrow> (cur, content @ [section_marker (snd m)])
           | None \<Rightarrow> (cur, content @ [line])))"
  using assms by (simp add: process_line_def Let_def)

section \<open>The length guards\<close>

lemma length_guards_trimmed_length:
  "(length (strip line) > 100 \<longrightarrow> detect_chapter line = None) \<and>
   (length (strip line) > 80 \<longrightarrow> detect_section line = None)"
  by (simp add: detect_chapter_def detect_section_def Let_def)

text \<open>
  C5. A trimmed line that is longer than 100 characters is no chapter, also when a
  chapter pattern matches it, and a trimmed line that is longer than 80 characters is
  no section. The classifier is given trimmed lines: the pipeline trims each line
  before it classifies it, and a line of more than 100 characters goes to the output as
  body text.
\<close>

theorem length_guards:
  assumes "strip line = line"
  shows "(length line > 100 \<longrightarrow> detect_chapter line = None) \<and>
         (length line > 80 \<longrightarrow> detect_section line = None) \<and>
         (length line > 100 \<longrightarrow> process_line (cur, content) line = (cur, content @ [line]))"
proof -
  from length_guards_trimmed_length [of line] assms
  have g: "length line > 100 \<longrightarrow> detect_chapter line = None"
    "length line > 80 \<longrightarrow> detect_section line = None"
    by simp_all
  have "process_line (cur, content) line = (cur, content @ [line])" if "length line > 100"
  proof -
    from that have ne: "line \<noteq> []" by auto
    from that g have "detect_chapter line = None" "detect_section line = None" by simp_all
    then show ?thesis by (simp add: process_line_trimmed [OF ne assms])
  qed
  with g show ?thesis by blast
qed

theorem length_guards_witness:
  "strip (ascii ''Chapter 1'' @ replicate 96 120) = ascii ''Chapter 1'' @ replicate 96 120 \<and>
   length (ascii ''Chapter 1'' @ replicate 96 120) = 105 \<and>
   match_chapter (WordPattern (ascii ''Chapter'') (ascii ''CHAPTER''))
     (ascii ''Chapter 1'' @ replicate 96 120)
     = Some [ascii ''Chapter'', ascii ''1'', replicate 96 120] \<and>
   detect_chapter (ascii ''Chapter 1'' @ replicate 96 120) = None \<and>
   process_line (None, []) (ascii ''Chapter 1'' @ replicate 96 120)
     = (None, [ascii ''Chapter 1'' @ replicate 96 120]) \<and>
   strip (replicate 90 65) = replicate 90 65 \<and>
   length (replicate 90 (65::nat)) = 90 \<and>
   detect_section (replicate 90 65) = None"
proof -
  have a: "strip (ascii ''Chapter 1'' @ replicate 96 120) = ascii ''Chapter 1'' @ replicate 96 120"
    by (rule strip_id) (simp_all add: ascii_def isspace_def)
  have b: "strip (replicate 90 65) = replicate 90 65"
    by (rule strip_id) (simp_all add: isspace_def)
  have la: "length (ascii ''Chapter 1'' @ replicate 96 120) = 105"
    by (simp add: ascii_def)
  have m: "match_chapter (WordPattern (ascii ''Chapter'') (ascii ''CHAPTER''))
     (ascii ''Chapter 1'' @ replicate 96 120)
     = Some [ascii ''Chapter'', ascii ''1'', replicate 96 120]"
    by (simp add: eval_classifier takeWhile_replicate dropWhile_replicate)
  from length_guards [OF a, of None "[]"] length_guards [OF b, of None "[]"] a b la m
  show ?thesis by simp
qed

section \<open>Classification of a line\<close>

text \<open>
  C4. For a trimmed line that is not empty the three classifications exclude each
  other and the chapter comes first: when \<open>detect_chapter\<close> returns a title the line is
  handled as a chapter, whatever \<open>detect_section\<close> would say about it (a marker for a
  new title, nothing for the current one, and never a section marker or a body line);
  a section marker is written only when \<open>detect_chapter\<close> returns nothing; and a line
  that neither detector accepts is written as it is.
\<close>

theorem classification_precedence:
  assumes "line \<noteq> []" and "strip line = line"
  shows "(\<forall>tag title. detect_chapter line = Some (tag, title) \<longrightarrow>
            process_line (cur, content) line =
              (Some title, if cur = Some title then content
                           else content @ [chapter_marker title])) \<and>
         (\<forall>tag title. detect_chapter line = None \<and> detect_section line = Some (tag, title) \<longrightarrow>
            process_line (cur, content) line = (cur, content @ [section_marker title])) \<and>
         (detect_chapter line = None \<and> detect_section line = None \<longrightarrow>
            process_line (cur, content) line = (cur, content @ [line]))"
  by (auto simp: process_line_trimmed [OF assms])

theorem classification_precedence_witness:
  "detect_chapter (ascii ''CHAPTER IV'') = Some (ascii ''CHAPTER'', ascii ''CHAPTER IV'') \<and>
   detect_section (ascii ''CHAPTER IV'') = Some (ascii ''SECTION'', ascii ''CHAPTER IV'') \<and>
   process_line (None, []) (ascii ''CHAPTER IV'')
     = (Some (ascii ''CHAPTER IV''), [ascii ''[CHAPTER:CHAPTER IV]'']) \<and>
   process_line (Some (ascii ''CHAPTER IV''), []) (ascii ''CHAPTER IV'')
     = (Some (ascii ''CHAPTER IV''), []) \<and>
   process_line (None, []) (ascii ''INTRODUCTION'') = (None, [ascii ''[SECTION:INTRODUCTION]'']) \<and>
   process_line (None, []) (ascii ''hello'') = (None, [ascii ''hello''])"
proof -
  have t: "ascii ''CHAPTER IV'' \<noteq> []" "strip (ascii ''CHAPTER IV'') = ascii ''CHAPTER IV''"
    "ascii ''INTRODUCTION'' \<noteq> []" "strip (ascii ''INTRODUCTION'') = ascii ''INTRODUCTION''"
    "ascii ''hello'' \<noteq> []" "strip (ascii ''hello'') = ascii ''hello''"
    by (simp_all add: eval_normalizer)
  have c: "detect_chapter (ascii ''CHAPTER IV'') = Some (ascii ''CHAPTER'', ascii ''CHAPTER IV'')"
    by (simp add: eval_classifier)
  have s: "detect_section (ascii ''CHAPTER IV'') = Some (ascii ''SECTION'', ascii ''CHAPTER IV'')"
    by (simp add: eval_classifier)
  have o: "detect_chapter (ascii ''INTRODUCTION'') = None"
    "detect_section (ascii ''INTRODUCTION'') = Some (ascii ''SECTION'', ascii ''INTRODUCTION'')"
    by (simp_all add: eval_classifier)
  have h: "detect_chapter (ascii ''hello'') = None" "detect_section (ascii ''hello'') = None"
    by (simp_all add: eval_classifier)
  from classification_precedence [OF t(1,2), of None "[]"] c
  have 1: "process_line (None, []) (ascii ''CHAPTER IV'')
     = (Some (ascii ''CHAPTER IV''), [chapter_marker (ascii ''CHAPTER IV'')])"
    by simp
  from classification_precedence [OF t(1,2), of "Some (ascii ''CHAPTER IV'')" "[]"] c
  have 2: "process_line (Some (ascii ''CHAPTER IV''), []) (ascii ''CHAPTER IV'')
     = (Some (ascii ''CHAPTER IV''), [])"
    by simp
  from classification_precedence [OF t(3,4), of None "[]"] o
  have 3: "process_line (None, []) (ascii ''INTRODUCTION'')
     = (None, [section_marker (ascii ''INTRODUCTION'')])"
    by simp
  from classification_precedence [OF t(5,6), of None "[]"] h
  have 4: "process_line (None, []) (ascii ''hello'') = (None, [ascii ''hello''])"
    by simp
  from c s 1 2 3 4 show ?thesis
    by (simp add: chapter_marker_def section_marker_def ascii_def)
qed

section \<open>Headings in capitals\<close>

lemma capital_not_decimal: "is_AZ c \<Longrightarrow> \<not> isdecimal c"
  by (simp add: is_AZ_def isdecimal_def nd_blocks_def)

lemma match_caps_trimmed:
  assumes "strip line = line"
  shows "match_caps line = (if caps_shape line then Some [line] else None)"
proof (cases line)
  case Nil
  then show ?thesis by (simp add: match_caps_def caps_shape_def)
next
  case (Cons c cs)
  then have ne: "line \<noteq> []" by simp
  from trimmed_ends(2) [OF assms ne] have "last line \<noteq> newline"
    using isspace_newline by metis
  with Cons have "cs \<noteq> [] \<longrightarrow> last cs \<noteq> newline" by (auto split: if_splits)
  moreover have "length cs = 31 \<longrightarrow> cs \<noteq> []" by auto
  ultimately have "\<not> (length cs = 31 \<and> last cs = newline)" by blast
  with Cons show ?thesis
    by (auto simp: match_caps_def caps_shape_def)
qed

lemma caps_shape_not_numbered:
  assumes "caps_shape line"
  shows "match_section_numbered line = None"
proof -
  from assms have "line \<noteq> []" and "is_AZ (hd line)"
    by (auto simp: caps_shape_def)
  then have "takeWhile isdecimal line = []"
    by (cases line) (auto dest: capital_not_decimal)
  then show ?thesis by (simp add: match_section_numbered_def Let_def)
qed

lemma detect_section_caps:
  assumes "strip line = line" and "caps_shape line"
  shows "detect_section line = Some (ascii ''SECTION'', line)"
proof -
  from assms(2) have "line \<noteq> []" and "length line \<le> 80"
    by (auto simp: caps_shape_def)
  with assms show ?thesis
    by (simp add: detect_section_def section_patterns_def caps_shape_not_numbered
        match_caps_trimmed)
qed

text \<open>
  C6, as amended. On a trimmed line the pattern for headings in capitals matches
  exactly when the line has 3 to 31 characters, an ASCII capital letter first and ASCII
  capital letters or whitespace after it; \<open>detect_section\<close> then returns the line as
  the section title, and when \<open>detect_chapter\<close> returns nothing for it the pipeline
  writes the section marker of the line.
\<close>

theorem caps_heading:
  assumes "strip line = line"
  shows "(match_section CapsHeading line \<noteq> None \<longleftrightarrow> caps_shape line) \<and>
         (caps_shape line \<longrightarrow> detect_section line = Some (ascii ''SECTION'', line)) \<and>
         (caps_shape line \<and> detect_chapter line = None \<longrightarrow>
            process_line (cur, content) line = (cur, content @ [section_marker line]))"
proof -
  have 1: "match_section CapsHeading line \<noteq> None \<longleftrightarrow> caps_shape line"
    by (simp add: match_caps_trimmed [OF assms])
  have 2: "detect_section line = Some (ascii ''SECTION'', line)" if "caps_shape line"
    by (rule detect_section_caps [OF assms that])
  have 3: "process_line (cur, content) line = (cur, content @ [section_marker line])"
    if "caps_shape line" and "detect_chapter line = None"
  proof -
    from that(1) have "line \<noteq> []" by (auto simp: caps_shape_def)
    from process_line_trimmed [OF this assms] that(2) 2 [OF that(1)] show ?thesis by simp
  qed
  from 1 2 3 show ?thesis by blast
qed

theorem caps_heading_witness:
  "strip (replicate 31 65) = replicate 31 65 \<and> caps_shape (replicate 31 65) \<and>
   match_section CapsHeading (replicate 31 65) \<noteq> None \<and>
   detect_chapter (replicate 31 65) = None \<and>
   process_line (None, []) (replicate 31 65) = (None, [section_marker (replicate 31 65)]) \<and>
   strip (replicate 32 65) = replicate 32 65 \<and> \<not> caps_shape (replicate 32 65) \<and>
   match_section CapsHeading (replicate 32 65) = None"
proof -
  have a: "strip (replicate 31 65) = replicate 31 65"
    by (rule strip_id) (simp_all add: isspace_def)
  have b: "strip (replicate 32 65) = replicate 32 65"
    by (rule strip_id) (simp_all add: isspace_def)
  have tl31: "tl (replicate 31 (65::nat)) = replicate 30 65"
    by (simp add: tl_replicate)
  have tl32: "tl (replicate 32 (65::nat)) = replicate 31 65"
    by (simp add: tl_replicate)
  have c: "caps_shape (replicate 31 65)"
    unfolding caps_shape_def tl31 by (simp add: is_AZ_def list_all_iff hd_replicate)
  have d: "\<not> caps_shape (replicate 32 65)"
    by (simp add: caps_shape_def)
  have e: "detect_chapter (replicate 31 65) = None"
    by (simp add: eval_classifier)
  from caps_heading [OF a, of None "[]"] caps_heading [OF b, of None "[]"] a b c d e
  show ?thesis by simp
qed

text \<open>
  C6 as stated bounds the heading by 30 characters. A line of 31 capital letters matches
  no chapter pattern and is a section: the pattern is one capital letter and then
  \<open>{2,30}\<close> more characters.
\<close>

theorem caps_heading_counterexample:
  "length (replicate 31 (65::nat)) = 31 \<and>
   list_all is_AZ (replicate 31 65) \<and>
   detect_chapter (replicate 31 65) = None \<and>
   detect_section (replicate 31 65) = Some (ascii ''SECTION'', replicate 31 65)"
proof -
  have a: "strip (replicate 31 65) = replicate 31 65"
    by (rule strip_id) (simp_all add: isspace_def)
  have "tl (replicate 31 (65::nat)) = replicate 30 65"
    by (simp add: tl_replicate)
  then have c: "caps_shape (replicate 31 65)"
    unfolding caps_shape_def by (simp add: is_AZ_def list_all_iff hd_replicate)
  have "detect_chapter (replicate 31 65) = None"
    by (simp add: eval_classifier)
  with detect_section_caps [OF a c] show ?thesis
    by (simp add: list_all_iff is_AZ_def)
qed

section \<open>Chapter markers across pages\<close>

lemma strip_clean_text: "strip (clean_text r) = clean_text r"
  by (simp add: clean_text_eq strip_idem) (simp add: strip_def lstrip_def rstrip_def)

lemma process_page_one_line:
  assumes "raw \<noteq> []" and "clean_text raw \<noteq> []"
  shows "process_page (cur, out) n (Some raw) =
     (let r = process_line (cur, []) (clean_text raw)
      in if snd r \<noteq> [] then (fst r, out @ [page_marker n] @ snd r @ [[]]) else (fst r, out))"
  using assms split_nl_no_newline [OF clean_text_no_newline, of raw]
  by (simp add: process_page_def Let_def)

text \<open>
  The tracked chapter is carried from page to page: two pages whose normalized text is
  the same chapter heading give one chapter marker, and the second page, which has no
  other content, gives no page marker either.
\<close>

lemma repeated_heading_suppressed:
  assumes r: "r1 \<noteq> []" "r2 \<noteq> []"
    and c: "clean_text r1 = line" "clean_text r2 = line"
    and d: "detect_chapter line = Some (tag, heading)"
  shows "process_pages (None, []) 1 [Inr (Some r1), Inr (Some r2)]
     = Inr (Some heading, [page_marker 1, chapter_marker heading, []])"
proof -
  from d have ne: "line \<noteq> []"
    by (auto simp: detect_chapter_def Let_def strip_def lstrip_def rstrip_def split: if_splits)
  from strip_clean_text [of r1] c(1) have tr: "strip line = line" by simp
  have 1: "process_line (None, []) line = (Some heading, [chapter_marker heading])"
    using d by (simp add: process_line_trimmed [OF ne tr])
  have 2: "process_line (Some heading, []) line = (Some heading, [])"
    using d by (simp add: process_line_trimmed [OF ne tr])
  have p1: "process_page (None, []) n (Some r1)
      = (Some heading, [page_marker n, chapter_marker heading, []])" for n
    using process_page_one_line [of r1 None "[]" n] r(1) c(1) ne 1 by (simp add: Let_def)
  have p2: "process_page (Some heading, out) n (Some r2) = (Some heading, out)" for out n
    using process_page_one_line [of r2 "Some heading" out n] r(2) c(2) ne 2 by (simp add: Let_def)
  show ?thesis by (simp add: p1 p2)
qed

text \<open>
  C3. The claim is that two consecutive pages that each contain the same chapter heading
  line give one chapter marker. Two pages with the heading \<open>Chapter 1\<close> as a running
  header and different text below it give two: the normalizer joins the heading with
  the rest of the page, so the detected titles are \<open>Chapter 1: foo\<close> and
  \<open>Chapter 1: bar\<close>, and they differ.
\<close>

theorem running_header_two_markers:
  "extracted_content running_header_pages
     = Inr [ascii ''[PAGE:1]'', ascii ''[CHAPTER:Chapter 1: foo]'', [],
            ascii ''[PAGE:2]'', ascii ''[CHAPTER:Chapter 1: bar]'', []] \<and>
   length (chapter_markers [ascii ''[PAGE:1]'', ascii ''[CHAPTER:Chapter 1: foo]'', [],
            ascii ''[PAGE:2]'', ascii ''[CHAPTER:Chapter 1: bar]'', []]) = 2"
  by (simp add: eval_pipeline running_header_pages_def chapter_markers_def)

section \<open>Failures of the extractor\<close>

lemma py_print_ok: "\<forall>c. encodable w c \<Longrightarrow> py_print w text = Inr ()"
  by (simp add: py_print_def list_all_iff)

lemma extract_pages_printable:
  "\<forall>c. encodable w c \<Longrightarrow> extract_pages w tp st n pages = process_pages st n pages"
  by (induction pages arbitrary: st n) (simp_all add: py_print_ok split: sum.splits)

lemma write_output_console: "encodable (snd (write_output w p c)) = encodable w"
  by (simp add: write_output_def)

text \<open>
  When the console encodes every character, no exception reaches the caller: the
  result is \<open>True\<close> when the document opens, every page gives its text and the output
  is written, and \<open>False\<close> after any failure.
\<close>

lemma extract_returns_when_printable:
  assumes "\<forall>c. encodable w c"
  shows "\<exists>b w'. extract_text_from_pdf w pdf_path output_path = Inr (b, w') \<and>
     (b \<longleftrightarrow> (\<exists>pages st. pdfs w pdf_path = Inr pages \<and>
              process_pages (None, []) 1 pages = Inr st \<and>
              writable w output_path \<and> storable w output_path (join_nl (snd st))))"
proof -
  have p: "py_print w msg = Inr ()" for msg
    by (rule py_print_ok [OF assms])
  have q: "py_print (snd (write_output w p c)) msg = Inr ()" for p c msg
    by (rule py_print_ok) (simp add: write_output_console assms)
  show ?thesis
  proof (cases "pdfs w pdf_path")
    case (Inl e)
    then show ?thesis
      by (auto simp: extract_text_from_pdf_def extract_body_def p)
  next
    case pages: (Inr pages)
    show ?thesis
    proof (cases "process_pages (None, []) 1 pages")
      case (Inl e)
      with pages show ?thesis
        by (auto simp: extract_text_from_pdf_def extract_body_def p
            extract_pages_printable [OF assms])
    next
      case st: (Inr st)
      obtain cur out where stp: "st = (cur, out)" by (cases st)
      obtain r w' where wo: "write_output w output_path (join_nl (snd st)) = (r, w')"
        by (cases "write_output w output_path (join_nl (snd st))")
      from q [of output_path "join_nl (snd st)"] wo
      have q': "py_print w' msg = Inr ()" for msg by simp
      from wo have r: "(\<exists>u. r = Inr u) \<longleftrightarrow>
          writable w output_path \<and> storable w output_path (join_nl (snd st))"
        by (auto simp: write_output_def split: if_splits)
      show ?thesis
      proof (cases r)
        case (Inl e)
        with r pages st wo stp show ?thesis
          by (auto simp: extract_text_from_pdf_def extract_body_def p q'
              extract_pages_printable [OF assms])
      next
        case (Inr u)
        with r pages st wo stp show ?thesis
          by (auto simp: extract_text_from_pdf_def extract_body_def p q'
              extract_pages_printable [OF assms])
      qed
    qed
  qed
qed

text \<open>
  C8. The claim is that \<open>extract_text_from_pdf\<close> never raises to its caller. On a
  console that encodes ASCII only, the path \<open>Chuong.pdf\<close> with its Vietnamese letters
  makes the first \<open>print\<close> of the \<open>try\<close> block raise; the handler catches that and
  prints the path again, outside any \<open>try\<close>, and this exception reaches the caller,
  although the document could be opened and the output written. With a path in ASCII
  the same world gives \<open>True\<close>.
\<close>

theorem extract_raises_on_unencodable_path:
  "extract_text_from_pdf ascii_console_world chuong_pdf (ascii ''out.txt'') = Inl EncodeError \<and>
   map_sum id fst (extract_text_from_pdf ascii_console_world (ascii ''book.pdf'')
     (ascii ''out.txt'')) = Inr True"
  by (simp add: extract_text_from_pdf_def extract_body_def py_print_def write_output_def
      ascii_console_world_def chuong_pdf_def eval_pipeline)

section \<open>Counting markers\<close>

lemma occurrences_skip:
  assumes "a \<notin> set xs"
  shows "occurrences (xs @ s) (a # rest) = occurrences s (a # rest)"
  using assms by (induction xs) (auto simp: startswith_def)

lemma str_count_occurrences:
  assumes "a \<notin> set rest"
  shows "str_count s (a # rest) = occurrences s (a # rest)"
proof (induction s "a # rest" rule: str_count.induct)
  case (1 s)
  show ?case
  proof (cases s)
    case Nil
    then show ?thesis by (simp add: str_count.simps)
  next
    case (Cons c cs)
    show ?thesis
    proof (cases "startswith s (a # rest)")
      case True
      then have s: "s = (a # rest) @ drop (length (a # rest)) s"
        by (metis append_take_drop_id startswith_def)
      from True Cons have ca: "c = a" by (simp add: startswith_def)
      have cs: "cs = rest @ drop (length (a # rest)) s"
        using s Cons ca by simp
      have "str_count s (a # rest) = 1 + str_count (drop (length (a # rest)) s) (a # rest)"
        using True Cons by (subst str_count.simps) simp
      also have "\<dots> = 1 + occurrences (drop (length (a # rest)) s) (a # rest)"
        using 1(1) True Cons by simp
      also have "\<dots> = 1 + occurrences cs (a # rest)"
      proof -
        have "occurrences (rest @ drop (length (a # rest)) s) (a # rest)
            = occurrences (drop (length (a # rest)) s) (a # rest)"
          by (rule occurrences_skip [OF assms])
        with cs show ?thesis by simp
      qed
      also have "\<dots> = occurrences s (a # rest)"
        using True Cons by simp
      finally show ?thesis .
    next
      case False
      have "str_count s (a # rest) = str_count (tl s) (a # rest)"
        using False Cons by (subst str_count.simps) simp
      also have "\<dots> = occurrences (tl s) (a # rest)"
        using 1(2) False Cons by simp
      also have "\<dots> = occurrences s (a # rest)"
        using False Cons by simp
      finally show ?thesis .
    qed
  qed
qed

lemma count_page_tokens: "str_count s (ascii ''[PAGE:'') = occurrences s (ascii ''[PAGE:'')"
proof -
  have "ascii ''[PAGE:'' = 91 # ascii ''PAGE:''" and "91 \<notin> set (ascii ''PAGE:'')"
    by (simp_all add: ascii_def)
  then show ?thesis using str_count_occurrences [of 91 "ascii ''PAGE:''" s] by simp
qed

lemma count_chapter_tokens:
  "str_count s (ascii ''[CHAPTER:'') = occurrences s (ascii ''[CHAPTER:'')"
proof -
  have "ascii ''[CHAPTER:'' = 91 # ascii ''CHAPTER:''" and "91 \<notin> set (ascii ''CHAPTER:'')"
    by (simp_all add: ascii_def)
  then show ?thesis using str_count_occurrences [of 91 "ascii ''CHAPTER:''" s] by simp
qed

lemma count_pages_in_text_read:
  "files w text_file = Some content \<Longrightarrow>
   count_pages_in_text w text_file =
     (if str_count content (ascii ''[PAGE:'') > 0 then str_count content (ascii ''[PAGE:'') else 1)"
  by (simp add: count_pages_in_text_def Let_def)

lemma chapter_count_read:
  "files w text_file = Some content \<Longrightarrow>
   chapter_count (extract_book_info w text_file) = str_count content (ascii ''[CHAPTER:'')"
  unfolding extract_book_info_def by (simp only: option.case Let_def book_info.simps)

text \<open>
  C9. For a produced text file the counters depend on the marker tokens alone:
  \<open>chapter_count\<close> is the number of places where \<open>[CHAPTER:\<close> occurs, and \<open>page_count\<close> is
  the number of places where \<open>[PAGE:\<close> occurs, or 1 when there is none. The numbers
  behind the tokens play no part: a file with the markers \<open>[PAGE:1]\<close> and \<open>[PAGE:3]\<close>
  has \<open>page_count\<close> 2.
\<close>

theorem marker_counts:
  assumes "files w text_file = Some content"
  shows "count_pages_in_text w text_file =
           (if occurrences content (ascii ''[PAGE:'') > 0
            then occurrences content (ascii ''[PAGE:'') else 1) \<and>
         chapter_count (extract_book_info w text_file)
           = occurrences content (ascii ''[CHAPTER:'')"
  using count_pages_in_text_read [OF assms] chapter_count_read [OF assms]
  by (simp only: count_page_tokens count_chapter_tokens simp_thms)

theorem marker_counts_witness:
  "files sparse_world (ascii ''book.txt'') = Some sparse_file \<and>
   count_pages_in_text sparse_world (ascii ''book.txt'') = 2 \<and>
   chapter_count (extract_book_info sparse_world (ascii ''book.txt'')) = 2 \<and>
   files sparse_world (ascii ''empty.txt'') = Some [] \<and>
   count_pages_in_text sparse_world (ascii ''empty.txt'') = 1"
proof -
  have f: "files sparse_world (ascii ''book.txt'') = Some sparse_file"
    "files sparse_world (ascii ''empty.txt'') = Some []"
    by (simp_all add: sparse_world_def ascii_def)
  have o: "occurrences sparse_file (ascii ''[PAGE:'') = 2"
    "occurrences sparse_file (ascii ''[CHAPTER:'') = 2"
    by (simp_all add: sparse_file_def ascii_def startswith_def newline_def)
  from marker_counts [OF f(1)] marker_counts [OF f(2)] f o show ?thesis by simp
qed

end
